theory Spec2Isabelle
  imports Main
begin

section \<open>Errors raised by the modelled Python code\<close>

datatype py_error = ValueError | TypeError | IndexError | AssertionError

section \<open>The extension collection of \<open>PyBuildExt\<close> (backend.py)\<close>

text \<open>
  An extension descriptor of distutils; the build script only reads its \<open>name\<close>.
\<close>

record extension =
  name :: string
  sources :: "string list"

text \<open>
  The instance attributes that \<open>PyBuildExt.__init__\<close> sets, with the extension list
  of the base class.
\<close>

record PyBuildExt =
  srcdir :: "string option"
  extensions :: "extension list"
  failed :: "string list"
  missing :: "string list"

text \<open>
  \<open>dict((ext.name, i) for i, ext in enumerate(extensions))\<close>: the pairs are stored in
  order, so a later descriptor of the same name overwrites the index of an earlier one.
\<close>

definition ext_map_of :: "extension list \<Rightarrow> (string \<rightharpoonup> nat)" where
  "ext_map_of exts =
     fold (\<lambda>(i, ext) m. m(name ext \<mapsto> i)) (enumerate 0 exts) Map.empty"

text \<open>\<open>list.pop(i)\<close> for a non-negative index: IndexError out of range.\<close>

definition list_pop :: "'a list \<Rightarrow> nat \<Rightarrow> py_error + ('a \<times> 'a list)" where
  "list_pop xs i =
     (if i < length xs then Inr (xs ! i, take i xs @ drop (Suc i) xs)
      else Inl IndexError)"

text \<open>
  \<open>remove_disabled\<close>; the module global \<open>DISABLED_MODULE_LIST\<close> is the first argument.
\<close>

definition remove_disabled :: "string list \<Rightarrow> PyBuildExt \<Rightarrow> py_error + PyBuildExt" where
  "remove_disabled DISABLED_MODULE_LIST self =
     (let exts = filter (\<lambda>ext. name ext \<notin> set DISABLED_MODULE_LIST) (extensions self);
          ext_map = ext_map_of exts
      in case ext_map ''_ctypes'' of
           None \<Rightarrow> Inr (self\<lparr>extensions := exts\<rparr>)
         | Some i \<Rightarrow>
             (case list_pop exts i of
                Inl e \<Rightarrow> Inl e
              | Inr (ctypes, rest) \<Rightarrow> Inr (self\<lparr>extensions := rest @ [ctypes]\<rparr>)))"

section \<open>The functions of \<open>os.path\<close> (posixpath) that the script calls\<close>

text \<open>
  Strings are lists of characters; a character stands for a code point below 256.
  The build script runs on POSIX hosts, so \<open>os.sep\<close> is the slash.
\<close>

definition sep :: char where
  "sep = CHR ''/''"

text \<open>\<open>isabs(s)\<close> is \<open>s.startswith('/')\<close>.\<close>

definition isabs :: "string \<Rightarrow> bool" where
  "isabs s = (case s of [] \<Rightarrow> False | c # _ \<Rightarrow> c = sep)"

text \<open>
  One round of the loop of \<open>join(a, *p)\<close>: an absolute component replaces the path, an
  empty path or one ending in a slash is extended directly, otherwise a slash is put
  between. \<open>join(a, b, c)\<close> is \<open>posix_join (posix_join a b) c\<close>.
\<close>

definition posix_join :: "string \<Rightarrow> string \<Rightarrow> string" where
  "posix_join path b =
     (if isabs b then b
      else if path = [] \<or> last path = sep then path @ b
      else path @ sep # b)"

text \<open>\<open>p.rstrip(os.sep)\<close>\<close>

definition rstrip_sep :: "string \<Rightarrow> string" where
  "rstrip_sep p = rev (dropWhile (\<lambda>c. c = sep) (rev p))"

text \<open>
  \<open>dirname(p)\<close>: the head up to and including the last slash, with its trailing
  slashes stripped unless it consists of slashes only.
\<close>

definition posix_dirname :: "string \<Rightarrow> string" where
  "posix_dirname p =
     (let head = rev (dropWhile (\<lambda>c. c \<noteq> sep) (rev p))
      in if head \<noteq> [] \<and> head \<noteq> replicate (length head) sep then rstrip_sep head
         else head)"

text \<open>\<open>path.split(sep)\<close> and \<open>sep.join(comps)\<close>\<close>

fun split_sep :: "string \<Rightarrow> string list" where
  "split_sep [] = [[]]"
| "split_sep (c # cs) =
     (if c = sep then [] # split_sep cs
      else (case split_sep cs of [] \<Rightarrow> [[c]] | w # ws \<Rightarrow> (c # w) # ws))"

fun join_sep :: "string list \<Rightarrow> string" where
  "join_sep [] = []"
| "join_sep [x] = x"
| "join_sep (x # y # zs) = x @ sep # join_sep (y # zs)"

text \<open>
  The body of the loop of \<open>normpath\<close> over the components; \<open>initial_slashes\<close> is 0, 1
  or 2.
\<close>

definition normpath_step :: "nat \<Rightarrow> string \<Rightarrow> string list \<Rightarrow> string list" where
  "normpath_step initial_slashes component new_comps =
     (if component = [] \<or> component = ''.'' then new_comps
      else if component \<noteq> ''..'' \<or> (initial_slashes = 0 \<and> new_comps = [])
              \<or> (new_comps \<noteq> [] \<and> last new_comps = ''..'')
        then new_comps @ [component]
      else if new_comps \<noteq> [] then butlast new_comps
      else new_comps)"

definition normpath :: "string \<Rightarrow> string" where
  "normpath path =
     (if path = [] then ''.''
      else
        let initial_slashes =
              (if isabs path
               then (if take 2 path = [sep, sep] \<and> take 3 path \<noteq> [sep, sep, sep]
                     then 2 else 1)
               else 0);
            comps = fold (normpath_step initial_slashes) (split_sep path) [];
            path' = replicate initial_slashes sep @ join_sep comps
        in if path' = [] then ''.'' else path')"

text \<open>\<open>abspath(path)\<close>; the first argument is \<open>os.getcwd()\<close>.\<close>

definition abspath :: "string \<Rightarrow> string \<Rightarrow> string" where
  "abspath cwd path = normpath (if isabs path then path else posix_join cwd path)"

section \<open>The host, the configuration variables and the module globals (python.py)\<close>

text \<open>
  What the script reads from its host: the platform flag \<open>MACOS\<close>, the file system
  (\<open>os.path.exists\<close>, \<open>os.path.isdir\<close>, \<open>os.getcwd\<close>), the predicate
  \<open>is_macosx_sdk_path\<close>, which the functions below call and whose definition is not
  among the sources, and \<open>_osx_support._default_sysroot\<close>, which runs the compiler.
\<close>

record world =
  MACOS :: bool
  path_exists :: "string \<Rightarrow> bool"
  path_isdir :: "string \<Rightarrow> bool"
  getcwd :: string
  is_macosx_sdk_path :: "string \<Rightarrow> bool"
  default_sysroot :: "string option \<Rightarrow> string"

text \<open>
  The store behind \<open>sysconfig.get_config_vars()\<close>; \<open>get_config_var\<close> of a name that is
  not set is \<open>None\<close>.
\<close>

type_synonym config_vars = "string \<rightharpoonup> string"

text \<open>
  The module globals of the SDK resolver. \<open>compiler_runs\<close> is not in the source: it
  counts the calls of \<open>_default_sysroot\<close>.
\<close>

record sdk_globals =
  MACOS_SDK_ROOT :: "string option"
  MACOS_SDK_SPECIFIED :: "bool option"
  compiler_runs :: nat

text \<open>Truth value of an object that is \<open>None\<close> or a string.\<close>

definition truthy :: "string option \<Rightarrow> bool" where
  "truthy v = (case v of None \<Rightarrow> False | Some s \<Rightarrow> s \<noteq> [])"

subsection \<open>\<open>set_compiler_flags\<close>\<close>

text \<open>Concatenating \<open>None\<close> with a string raises TypeError; the store is then not written.\<close>

definition set_compiler_flags :: "string \<Rightarrow> string \<Rightarrow> config_vars \<Rightarrow> py_error + config_vars" where
  "set_compiler_flags compiler_flags compiler_py_flags_nodist vars =
     (case vars compiler_flags of
        None \<Rightarrow> Inl TypeError
      | Some flags \<Rightarrow>
          (case vars compiler_py_flags_nodist of
             None \<Rightarrow> Inl TypeError
           | Some py_flags_nodist \<Rightarrow>
               Inr (vars(compiler_flags \<mapsto> flags @ '' '' @ py_flags_nodist))))"

subsection \<open>\<open>add_dir_to_list\<close>\<close>

text \<open>\<open>list.insert(i, x)\<close> for a non-negative index; an index past the end appends.\<close>

definition list_insert :: "'a list \<Rightarrow> nat \<Rightarrow> 'a \<Rightarrow> 'a list" where
  "list_insert xs i x = take i xs @ x # drop i xs"

text \<open>The function mutates \<open>dirlist\<close>; the model returns the list after the call.\<close>

definition add_dir_to_list :: "world \<Rightarrow> string list \<Rightarrow> string option \<Rightarrow> string list" where
  "add_dir_to_list w dirlist dir =
     (case dir of
        None \<Rightarrow> dirlist
      | Some d \<Rightarrow>
          if \<not> path_isdir w d \<or> d \<in> set dirlist then dirlist
          else (case find (\<lambda>(i, path). \<not> isabs path) (enumerate 0 dirlist) of
                  Some (i, path) \<Rightarrow> list_insert dirlist (i + 1) d
                | None \<Rightarrow> list_insert dirlist 0 d))"

subsection \<open>\<open>macosx_sdk_root\<close>\<close>

text \<open>
  \<open>\s\<close> of a \<open>str\<close> pattern: the white space among the code points below 256.
\<close>

definition py_isspace :: "char \<Rightarrow> bool" where
  "py_isspace c \<longleftrightarrow>
     c \<in> set [CHR 0x09, CHR 0x0A, CHR 0x0B, CHR 0x0C, CHR 0x0D,
              CHR 0x1C, CHR 0x1D, CHR 0x1E, CHR 0x1F, CHR 0x20, CHR 0x85, CHR 0xA0]"

text \<open>
  \<open>re.search(r'-isysroot\s*(\S+)', cflags)\<close>, giving \<open>m.group(1)\<close>. At a position the
  pattern matches iff the literal is there and, after all the white space that follows
  it, at least one character that is not white space: the group is the longest run of
  such characters (a shorter choice for \<open>\s*\<close> would leave \<open>\S+\<close> at white space).
  The search takes the leftmost position that matches.
\<close>

definition match_isysroot_at :: "string \<Rightarrow> string option" where
  "match_isysroot_at s =
     (if take (length ''-isysroot'') s = ''-isysroot''
      then (let grp = takeWhile (\<lambda>c. \<not> py_isspace c)
                        (dropWhile py_isspace (drop (length ''-isysroot'') s))
            in if grp = [] then None else Some grp)
      else None)"

fun re_search_isysroot :: "string \<Rightarrow> string option" where
  "re_search_isysroot [] = None"
| "re_search_isysroot (c # cs) =
     (case match_isysroot_at (c # cs) of
        Some grp \<Rightarrow> Some grp
      | None \<Rightarrow> re_search_isysroot cs)"

text \<open>
  The result is the returned value (or the TypeError of \<open>re.search\<close> on \<open>None\<close>, when
  \<open>CFLAGS\<close> is not set) and the globals after the call.
\<close>

definition macosx_sdk_root ::
  "world \<Rightarrow> config_vars \<Rightarrow> sdk_globals \<Rightarrow> (py_error + string) \<times> sdk_globals" where
  "macosx_sdk_root w vars g =
     (case (if truthy (MACOS_SDK_ROOT g) then MACOS_SDK_ROOT g else None) of
        Some cached \<Rightarrow> (Inr cached, g)
      | None \<Rightarrow>
          (case vars ''CFLAGS'' of
             None \<Rightarrow> (Inl TypeError, g)
           | Some cflags \<Rightarrow>
               (case re_search_isysroot cflags of
                  Some grp \<Rightarrow>
                    (Inr grp, g\<lparr>MACOS_SDK_ROOT := Some grp,
                                MACOS_SDK_SPECIFIED := Some (grp \<noteq> ''/'')\<rparr>)
                | None \<Rightarrow>
                    (let root = default_sysroot w (vars ''CC'')
                     in (Inr root, g\<lparr>MACOS_SDK_ROOT := Some root,
                                     MACOS_SDK_SPECIFIED := Some False,
                                     compiler_runs := compiler_runs g + 1\<rparr>)))))"

section \<open>The directory searches (python2.py, local.py)\<close>

text \<open>
  \<open>if MACOS: sysroot = macosx_sdk_root()\<close>. On another platform \<open>sysroot\<close> stays
  unbound and is never read, since every use is guarded by \<open>MACOS and ...\<close>; the model
  puts the empty string there.
\<close>

definition sysroot_if_macos ::
  "world \<Rightarrow> config_vars \<Rightarrow> sdk_globals \<Rightarrow> (py_error + string) \<times> sdk_globals" where
  "sysroot_if_macos w vars g = (if MACOS w then macosx_sdk_root w vars g else (Inr [], g))"

subsection \<open>\<open>find_file\<close>\<close>

text \<open>The path \<open>f\<close> that one round of either loop tests with \<open>os.path.exists\<close>.\<close>

definition candidate :: "world \<Rightarrow> string \<Rightarrow> string \<Rightarrow> string \<Rightarrow> string" where
  "candidate w sysroot dir filename =
     (if MACOS w \<and> is_macosx_sdk_path w dir
      then posix_join (posix_join sysroot (drop 1 dir)) filename
      else posix_join dir filename)"

text \<open>The loop over \<open>std_dirs\<close>: True when it returns \<open>[]\<close>.\<close>

fun find_file_std :: "world \<Rightarrow> string \<Rightarrow> string \<Rightarrow> string list \<Rightarrow> bool" where
  "find_file_std w sysroot filename [] = False"
| "find_file_std w sysroot filename (dir # dirs) =
     (if path_exists w (candidate w sysroot dir filename) then True
      else find_file_std w sysroot filename dirs)"

text \<open>The loop over \<open>paths\<close>: the list it returns, if it returns.\<close>

fun find_file_paths :: "world \<Rightarrow> string \<Rightarrow> string \<Rightarrow> string list \<Rightarrow> string list option" where
  "find_file_paths w sysroot filename [] = None"
| "find_file_paths w sysroot filename (dir # dirs) =
     (if path_exists w (candidate w sysroot dir filename) then Some [dir]
      else find_file_paths w sysroot filename dirs)"

text \<open>
  The function ends after the second loop, so a call that leaves both loops returns
  \<open>None\<close>.
\<close>

definition find_file ::
  "world \<Rightarrow> config_vars \<Rightarrow> sdk_globals \<Rightarrow> string \<Rightarrow> string list \<Rightarrow> string list
     \<Rightarrow> (py_error + string list option) \<times> sdk_globals" where
  "find_file w vars g filename std_dirs paths =
     (case sysroot_if_macos w vars g of
        (Inl e, g') \<Rightarrow> (Inl e, g')
      | (Inr sysroot, g') \<Rightarrow>
          (if find_file_std w sysroot filename std_dirs then (Inr (Some []), g')
           else (Inr (find_file_paths w sysroot filename paths), g')))"

subsection \<open>The tail of \<open>find_library_file\<close>\<close>

text \<open>
  The source has the function from \<open>if MACOS:\<close> on; \<open>result\<close>, the path that the
  compiler object found, is an argument here.
\<close>

fun library_std_loop :: "world \<Rightarrow> string \<Rightarrow> string \<Rightarrow> string list \<Rightarrow> bool" where
  "library_std_loop w sysroot dirname [] = False"
| "library_std_loop w sysroot dirname (p0 # ps) =
     (let p = rstrip_sep p0
      in if MACOS w \<and> is_macosx_sdk_path w p \<and> posix_join sysroot (drop 1 p) = dirname
         then True
         else if p = dirname then True
         else library_std_loop w sysroot dirname ps)"

fun library_paths_loop :: "world \<Rightarrow> string \<Rightarrow> string \<Rightarrow> string list \<Rightarrow> string list option" where
  "library_paths_loop w sysroot dirname [] = None"
| "library_paths_loop w sysroot dirname (p0 # ps) =
     (let p = rstrip_sep p0
      in if MACOS w \<and> is_macosx_sdk_path w p \<and> posix_join sysroot (drop 1 p) = dirname
         then Some [p]
         else if p = dirname then Some [p]
         else library_paths_loop w sysroot dirname ps)"

definition find_library_file ::
  "world \<Rightarrow> config_vars \<Rightarrow> sdk_globals \<Rightarrow> string \<Rightarrow> string list \<Rightarrow> string list
     \<Rightarrow> (py_error + string list) \<times> sdk_globals" where
  "find_library_file w vars g result std_dirs paths =
     (case sysroot_if_macos w vars g of
        (Inl e, g') \<Rightarrow> (Inl e, g')
      | (Inr sysroot, g') \<Rightarrow>
          (let dirname = posix_dirname result
           in if library_std_loop w sysroot dirname std_dirs then (Inr [], g')
              else (case library_paths_loop w sysroot dirname paths of
                      Some r \<Rightarrow> (Inr r, g')
                    | None \<Rightarrow> (Inl AssertionError, g'))))"

section \<open>\<open>PyBuildExt.set_srcdir\<close> (backend.py)\<close>

text \<open>
  The attribute is assigned before the test, so a call that raises leaves the value
  read from the store (\<open>None\<close> or the empty string) in \<open>self.srcdir\<close>.
\<close>

definition set_srcdir ::
  "world \<Rightarrow> config_vars \<Rightarrow> PyBuildExt \<Rightarrow> (py_error + unit) \<times> PyBuildExt" where
  "set_srcdir w vars self =
     (let self1 = self\<lparr>srcdir := vars ''srcdir''\<rparr>
      in case (if truthy (srcdir self1) then srcdir self1 else None) of
           None \<Rightarrow> (Inl ValueError, self1)
         | Some dir \<Rightarrow> (Inr (), self1\<lparr>srcdir := Some (abspath (getcwd w) dir)\<rparr>))"

section \<open>Notions used to state the properties\<close>

text \<open>
  \<open>cflags\<close> holds the option \<open>-isysroot\<close> with the argument \<open>path\<close>: the literal,
  any white space, then \<open>path\<close> as a maximal non-empty run without white space.
\<close>

definition isysroot_token :: "string \<Rightarrow> string \<Rightarrow> bool" where
  "isysroot_token cflags path \<longleftrightarrow>
     (\<exists>pre ws rest. cflags = pre @ ''-isysroot'' @ ws @ path @ rest \<and>
        (\<forall>c \<in> set ws. py_isspace c) \<and> path \<noteq> [] \<and> (\<forall>c \<in> set path. \<not> py_isspace c) \<and>
        (case rest of [] \<Rightarrow> True | c # _ \<Rightarrow> py_isspace c))"

text \<open>
  The same option at the offset \<open>n\<close> of \<open>cflags\<close>, and the leftmost one: the option
  at the least offset at which there is one.
\<close>

definition isysroot_token_at :: "string \<Rightarrow> nat \<Rightarrow> string \<Rightarrow> bool" where
  "isysroot_token_at cflags n path \<longleftrightarrow>
     (\<exists>ws rest. drop n cflags = ''-isysroot'' @ ws @ path @ rest \<and>
        (\<forall>c \<in> set ws. py_isspace c) \<and> path \<noteq> [] \<and> (\<forall>c \<in> set path. \<not> py_isspace c) \<and>
        (case rest of [] \<Rightarrow> True | c # _ \<Rightarrow> py_isspace c))"

definition leftmost_isysroot_token :: "string \<Rightarrow> string \<Rightarrow> bool" where
  "leftmost_isysroot_token cflags path \<longleftrightarrow>
     (\<exists>n. isysroot_token_at cflags n path \<and>
          (\<forall>m p. m < n \<longrightarrow> \<not> isysroot_token_at cflags m p))"

text \<open>
  The entry \<open>p0\<close> of a directory list stands for the directory \<open>dirname\<close>: with its
  trailing slashes stripped it is \<open>dirname\<close>, or, on macOS, it is an SDK path that lies
  at \<open>dirname\<close> under the SDK root.
\<close>

definition dir_matches :: "world \<Rightarrow> string \<Rightarrow> string \<Rightarrow> string \<Rightarrow> bool" where
  "dir_matches w sysroot dirname p0 \<longleftrightarrow>
     rstrip_sep p0 = dirname \<or>
     (MACOS w \<and> is_macosx_sdk_path w (rstrip_sep p0) \<and>
      posix_join sysroot (drop 1 (rstrip_sep p0)) = dirname)"

text \<open>
  A macOS host for the examples: two files, two directories, and a compiler whose
  default header root is the system root.
\<close>

definition example_host :: world where
  "example_host =
     \<lparr>MACOS = True,
      path_exists = (\<lambda>f. f \<in> set [''/SDKs/X.sdk/usr/include/zlib.h'', ''/opt/lib/include/foo.h'']),
      path_isdir = (\<lambda>d. d \<in> set [''/usr/local/lib'', ''/opt/lib'']),
      getcwd = ''/home/build/cpython'',
      is_macosx_sdk_path =
        (\<lambda>p. (take 5 p = ''/usr/'' \<and> take 10 p \<noteq> ''/usr/local'')
             \<or> take 15 p = ''/System/Library'' \<or> take 18 p = ''/System/iOSSupport''),
      default_sysroot = (\<lambda>cc. ''/'')\<rparr>"

section \<open>Properties of \<open>remove_disabled\<close>\<close>

lemma ext_map_of_Nil: "ext_map_of [] = Map.empty"
  by (simp add: ext_map_of_def)

lemma ext_map_of_snoc: "ext_map_of (xs @ [x]) = (ext_map_of xs)(name x \<mapsto> length xs)"
  by (simp add: ext_map_of_def enumerate_append_eq)

lemma ext_map_of_None: "ext_map_of xs k = None \<longleftrightarrow> k \<notin> name ` set xs"
  by (induction xs rule: rev_induct) (auto simp: ext_map_of_Nil ext_map_of_snoc)

lemma ext_map_of_Some:
  "ext_map_of xs k = Some i \<Longrightarrow>
     \<exists>pre c post. xs = pre @ c # post \<and> length pre = i \<and> name c = k \<and> k \<notin> name ` set post"
proof (induction xs rule: rev_induct)
  case Nil
  then show ?case by (simp add: ext_map_of_Nil)
next
  case (snoc x xs)
  show ?case
  proof (cases "name x = k")
    case True
    with snoc.prems have "i = length xs" by (simp add: ext_map_of_snoc)
    with True show ?thesis by (intro exI[of _ xs] exI[of _ x] exI[of _ "[]"]) simp
  next
    case False
    with snoc.prems have "ext_map_of xs k = Some i" by (simp add: ext_map_of_snoc)
    from snoc.IH[OF this] obtain pre c post where
      "xs = pre @ c # post" "length pre = i" "name c = k" "k \<notin> name ` set post" by blast
    with False show ?thesis
      by (intro exI[of _ pre] exI[of _ c] exI[of _ "post @ [x]"]) auto
  qed
qed

lemma list_pop_split: "list_pop (pre @ c # post) (length pre) = Inr (c, pre @ post)"
  by (simp add: list_pop_def nth_append)

lemma remove_disabled_cases:
  fixes D self
  defines "kept \<equiv> filter (\<lambda>ext. name ext \<notin> set D) (extensions self)"
  shows "(''_ctypes'' \<notin> name ` set kept \<and> remove_disabled D self = Inr (self\<lparr>extensions := kept\<rparr>)) \<or>
         (\<exists>pre c post. kept = pre @ c # post \<and> name c = ''_ctypes'' \<and> ''_ctypes'' \<notin> name ` set post \<and>
            remove_disabled D self = Inr (self\<lparr>extensions := pre @ post @ [c]\<rparr>))"
proof (cases "ext_map_of kept ''_ctypes''")
  case None
  then have "''_ctypes'' \<notin> name ` set kept" by (simp add: ext_map_of_None)
  with None show ?thesis by (simp add: remove_disabled_def kept_def)
next
  case (Some i)
  from ext_map_of_Some[OF this] obtain pre c post where
    *: "kept = pre @ c # post" "length pre = i" "name c = ''_ctypes''" "''_ctypes'' \<notin> name ` set post"
    by blast
  have "remove_disabled D self = Inr (self\<lparr>extensions := pre @ post @ [c]\<rparr>)"
    using Some * list_pop_split[of pre c post]
    by (simp add: remove_disabled_def kept_def[symmetric] del: append_assoc)
  with * show ?thesis by blast
qed

text \<open>
  Claim C1. For every extension collection and every disabled list, \<open>remove_disabled\<close>
  raises nothing; the collection it leaves holds no descriptor whose name is disabled;
  when no descriptor named \<open>_ctypes\<close> survives the filter, the collection is the
  filtered sequence itself; otherwise it is the filtered sequence with one descriptor
  named \<open>_ctypes\<close> taken out and put last, the others keeping their order.
\<close>

theorem remove_disabled_filters_and_reorders:
  "\<exists>self'. remove_disabled D self = Inr self' \<and>
     (\<forall>e \<in> set (extensions self'). name e \<notin> set D) \<and>
     (let kept = filter (\<lambda>ext. name ext \<notin> set D) (extensions self) in
        if ''_ctypes'' \<in> name ` set kept
        then name (last (extensions self')) = ''_ctypes'' \<and>
             (\<exists>pre c post. kept = pre @ c # post \<and> name c = ''_ctypes'' \<and>
                extensions self' = pre @ post @ [c])
        else extensions self' = kept)"
proof -
  define kept where "kept = filter (\<lambda>ext. name ext \<notin> set D) (extensions self)"
  have kept_ok: "\<forall>e \<in> set kept. name e \<notin> set D"
    by (simp add: kept_def)
  from remove_disabled_cases[of D self]
  consider (absent) "''_ctypes'' \<notin> name ` set kept"
      "remove_disabled D self = Inr (self\<lparr>extensions := kept\<rparr>)"
    | (present) pre c post where "kept = pre @ c # post" "name c = ''_ctypes''"
      "remove_disabled D self = Inr (self\<lparr>extensions := pre @ post @ [c]\<rparr>)"
    unfolding kept_def by blast
  then show ?thesis
  proof cases
    case absent
    with kept_ok show ?thesis
      unfolding Let_def kept_def[symmetric] by simp
  next
    case present
    have "''_ctypes'' \<in> name ` set kept"
      using present(1,2) by force
    moreover have "\<forall>e \<in> set (pre @ post @ [c]). name e \<notin> set D"
      using kept_ok present(1) by auto
    ultimately show ?thesis
      using present unfolding Let_def kept_def[symmetric]
      by (intro exI[of _ "self\<lparr>extensions := pre @ post @ [c]\<rparr>"]) auto
  qed
qed

theorem remove_disabled_filters_and_reorders_witness:
  "remove_disabled [''_tkinter'']
     \<lparr>srcdir = None,
      extensions = [\<lparr>name = ''_ctypes'', sources = []\<rparr>, \<lparr>name = ''_tkinter'', sources = []\<rparr>,
                    \<lparr>name = ''_socket'', sources = []\<rparr>],
      failed = [], missing = []\<rparr>
   = Inr \<lparr>srcdir = None,
      extensions = [\<lparr>name = ''_socket'', sources = []\<rparr>, \<lparr>name = ''_ctypes'', sources = []\<rparr>],
      failed = [], missing = []\<rparr>
   \<and> (\<exists>self'. remove_disabled [''_tkinter'']
     \<lparr>srcdir = None,
      extensions = [\<lparr>name = ''_ctypes'', sources = []\<rparr>, \<lparr>name = ''_tkinter'', sources = []\<rparr>,
                    \<lparr>name = ''_socket'', sources = []\<rparr>],
      failed = [], missing = []\<rparr> = Inr self' \<and> name (last (extensions self')) = ''_ctypes'')"
  using remove_disabled_filters_and_reorders [of "[''_tkinter'']"
     "\<lparr>srcdir = None,
      extensions = [\<lparr>name = ''_ctypes'', sources = []\<rparr>, \<lparr>name = ''_tkinter'', sources = []\<rparr>,
                    \<lparr>name = ''_socket'', sources = []\<rparr>],
      failed = [], missing = []\<rparr>"]
  by (simp add: remove_disabled_def ext_map_of_def list_pop_def)

text \<open>
  Claim C7. If the names of the extensions are pairwise distinct before
  \<open>remove_disabled\<close>, they are pairwise distinct in the collection it leaves.
\<close>

theorem remove_disabled_names_distinct:
  "distinct (map name (extensions self)) \<Longrightarrow>
     \<exists>self'. remove_disabled D self = Inr self' \<and> distinct (map name (extensions self'))"
proof -
  assume d: "distinct (map name (extensions self))"
  define kept where "kept = filter (\<lambda>ext. name ext \<notin> set D) (extensions self)"
  have dk: "distinct (map name kept)"
    unfolding kept_def using d by (rule distinct_map_filter)
  from remove_disabled_cases[of D self]
  consider (absent) "remove_disabled D self = Inr (self\<lparr>extensions := kept\<rparr>)"
    | (present) pre c post where "kept = pre @ c # post"
      "remove_disabled D self = Inr (self\<lparr>extensions := pre @ post @ [c]\<rparr>)"
    unfolding kept_def by blast
  then show ?thesis
  proof cases
    case absent
    with dk show ?thesis by simp
  next
    case present
    from dk present(1) have "distinct (map name (pre @ post @ [c]))" by auto
    with present(2) show ?thesis by simp
  qed
qed

theorem remove_disabled_names_distinct_witness:
  "distinct (map name [\<lparr>name = ''_ctypes'', sources = []\<rparr>, \<lparr>name = ''_socket'', sources = []\<rparr>]) \<and>
   (\<exists>self'. remove_disabled []
       \<lparr>srcdir = None,
        extensions = [\<lparr>name = ''_ctypes'', sources = []\<rparr>, \<lparr>name = ''_socket'', sources = []\<rparr>],
        failed = [], missing = []\<rparr> = Inr self' \<and> distinct (map name (extensions self')))"
proof -
  have h: "distinct (map name (extensions \<lparr>srcdir = None,
        extensions = [\<lparr>name = ''_ctypes'', sources = []\<rparr>, \<lparr>name = ''_socket'', sources = []\<rparr>],
        failed = [], missing = []\<rparr>))" by simp
  show ?thesis using h remove_disabled_names_distinct [OF h, of "[]"] by simp
qed

section \<open>Properties of \<open>set_compiler_flags\<close>\<close>

text \<open>
  Claim C5. For every pair of values of the two configuration variables,
  \<open>set_compiler_flags\<close> writes back, under the first name, the first value, one
  space and the second value; neither side is dropped, also when one is empty.
\<close>

theorem set_compiler_flags_concatenates:
  "vars compiler_flags = Some flags \<Longrightarrow> vars nodist = Some py_flags_nodist \<Longrightarrow>
     \<exists>vars'. set_compiler_flags compiler_flags nodist vars = Inr vars' \<and>
       vars' compiler_flags = Some (flags @ [CHR '' ''] @ py_flags_nodist)"
  by (simp add: set_compiler_flags_def)

theorem set_compiler_flags_concatenates_witness:
  "set_compiler_flags ''CFLAGS'' ''PY_CFLAGS_NODIST''
       [''CFLAGS'' \<mapsto> ''-O2'', ''PY_CFLAGS_NODIST'' \<mapsto> '''']
     = Inr [''CFLAGS'' \<mapsto> ''-O2 '', ''PY_CFLAGS_NODIST'' \<mapsto> '''']"
  using set_compiler_flags_concatenates [of "[''CFLAGS'' \<mapsto> ''-O2'', ''PY_CFLAGS_NODIST'' \<mapsto> '''']"
      "''CFLAGS''" "''-O2''" "''PY_CFLAGS_NODIST''" "''''"]
  by (auto simp: set_compiler_flags_def fun_upd_twist)

text \<open>
  Claim C10. \<open>set_compiler_flags\<close> changes only the entry named by its first
  argument: every variable of another name keeps its value, the source variable among
  them whenever it is another variable than the target.
\<close>

theorem set_compiler_flags_frame:
  "set_compiler_flags compiler_flags nodist vars = Inr vars' \<Longrightarrow>
     (\<forall>k. k \<noteq> compiler_flags \<longrightarrow> vars' k = vars k) \<and>
     (nodist \<noteq> compiler_flags \<longrightarrow> vars' nodist = vars nodist)"
  by (auto simp: set_compiler_flags_def split: option.splits)

theorem set_compiler_flags_frame_witness:
  "set_compiler_flags ''LDFLAGS'' ''PY_LDFLAGS_NODIST''
       [''LDFLAGS'' \<mapsto> ''-L.'', ''PY_LDFLAGS_NODIST'' \<mapsto> ''-flto'']
     = Inr [''PY_LDFLAGS_NODIST'' \<mapsto> ''-flto'', ''LDFLAGS'' \<mapsto> ''-L. -flto'']
   \<and> [''PY_LDFLAGS_NODIST'' \<mapsto> ''-flto'', ''LDFLAGS'' \<mapsto> ''-L. -flto''] ''PY_LDFLAGS_NODIST''
       = [''LDFLAGS'' \<mapsto> ''-L.'', ''PY_LDFLAGS_NODIST'' \<mapsto> ''-flto''] ''PY_LDFLAGS_NODIST''"
proof -
  have h: "set_compiler_flags ''LDFLAGS'' ''PY_LDFLAGS_NODIST''
       [''LDFLAGS'' \<mapsto> ''-L.'', ''PY_LDFLAGS_NODIST'' \<mapsto> ''-flto'']
     = Inr [''PY_LDFLAGS_NODIST'' \<mapsto> ''-flto'', ''LDFLAGS'' \<mapsto> ''-L. -flto'']"
    by (auto simp: set_compiler_flags_def fun_upd_twist)
  show ?thesis using h set_compiler_flags_frame [OF h] by simp
qed

section \<open>Properties of \<open>add_dir_to_list\<close>\<close>

lemma in_set_list_insert: "x \<in> set (list_insert xs i x)"
  by (simp add: list_insert_def)

lemma add_dir_to_list_member: "d \<in> set xs \<Longrightarrow> add_dir_to_list w xs (Some d) = xs"
  by (simp add: add_dir_to_list_def)

text \<open>
  Claim C9. \<open>add_dir_to_list\<close> is idempotent: a second call with the same directory
  leaves the list as the first call left it.
\<close>

theorem add_dir_to_list_idempotent:
  "add_dir_to_list w (add_dir_to_list w dirlist dir) dir = add_dir_to_list w dirlist dir"
proof (cases dir)
  case None
  then show ?thesis by (simp add: add_dir_to_list_def)
next
  case (Some d)
  show ?thesis
  proof (cases "\<not> path_isdir w d \<or> d \<in> set dirlist")
    case True
    with Some show ?thesis by (simp add: add_dir_to_list_def)
  next
    case False
    then have "d \<in> set (add_dir_to_list w dirlist (Some d))"
      by (auto simp: add_dir_to_list_def in_set_list_insert split: option.splits)
    then show ?thesis
      unfolding Some by (rule add_dir_to_list_member)
  qed
qed

theorem add_dir_to_list_idempotent_witness:
  "add_dir_to_list example_host [''/usr/lib'', ''build'', ''Modules''] (Some ''/opt/lib'')
     = [''/usr/lib'', ''build'', ''/opt/lib'', ''Modules''] \<and>
   add_dir_to_list example_host [''/usr/lib'', ''build'', ''/opt/lib'', ''Modules''] (Some ''/opt/lib'')
     = [''/usr/lib'', ''build'', ''/opt/lib'', ''Modules'']"
proof -
  have h: "add_dir_to_list example_host [''/usr/lib'', ''build'', ''Modules''] (Some ''/opt/lib'')
     = [''/usr/lib'', ''build'', ''/opt/lib'', ''Modules'']"
    by (simp add: add_dir_to_list_def example_host_def list_insert_def isabs_def sep_def enumerate_eq_zip)
  show ?thesis
    using h add_dir_to_list_idempotent [of example_host "[''/usr/lib'', ''build'', ''Modules'']" "Some ''/opt/lib''"]
    by simp
qed

section \<open>Properties of \<open>macosx_sdk_root\<close>\<close>

subsection \<open>The search finds an option exactly when there is one\<close>

lemma dropWhile_eq_Cons_head: "dropWhile P xs = y # ys \<Longrightarrow> \<not> P y"
  by (induction xs) (auto split: if_splits)

lemma match_isysroot_at_Some:
  assumes "match_isysroot_at s = Some grp"
  shows "\<exists>ws rest. s = ''-isysroot'' @ ws @ grp @ rest \<and>
           (\<forall>c \<in> set ws. py_isspace c) \<and> grp \<noteq> [] \<and> (\<forall>c \<in> set grp. \<not> py_isspace c) \<and>
           (case rest of [] \<Rightarrow> True | c # _ \<Rightarrow> py_isspace c)"
proof -
  let ?t = "drop (length ''-isysroot'') s"
  let ?u = "dropWhile py_isspace ?t"
  from assms have lit: "take (length ''-isysroot'') s = ''-isysroot''"
    and grp: "grp = takeWhile (\<lambda>c. \<not> py_isspace c) ?u" and ne: "grp \<noteq> []"
    by (auto simp: match_isysroot_at_def Let_def split: if_splits)
  have "s = take (length ''-isysroot'') s @ ?t" by simp
  also have "?t = takeWhile py_isspace ?t @ ?u" by simp
  also have "?u = grp @ dropWhile (\<lambda>c. \<not> py_isspace c) ?u" by (simp add: grp)
  finally have s: "s = ''-isysroot'' @ takeWhile py_isspace ?t @ grp @ dropWhile (\<lambda>c. \<not> py_isspace c) ?u"
    using lit by simp
  have a: "\<forall>c \<in> set (takeWhile py_isspace ?t). py_isspace c"
    by (auto dest: set_takeWhileD)
  have b: "\<forall>c \<in> set grp. \<not> py_isspace c"
    unfolding grp by (auto dest: set_takeWhileD)
  have c: "(case dropWhile (\<lambda>c. \<not> py_isspace c) ?u of [] \<Rightarrow> True | c # _ \<Rightarrow> py_isspace c)"
    by (auto split: list.splits dest: dropWhile_eq_Cons_head)
  from s a ne b c show ?thesis by blast
qed

lemma match_isysroot_at_token:
  assumes "\<forall>c \<in> set ws. py_isspace c" "\<not> py_isspace c"
  shows "match_isysroot_at (''-isysroot'' @ ws @ c # rest) \<noteq> None"
proof -
  have "dropWhile py_isspace (ws @ c # rest) = c # rest"
    using assms by (simp add: dropWhile_append3)
  then show ?thesis using assms(2) by (simp add: match_isysroot_at_def)
qed

lemma re_search_isysroot_Some: "re_search_isysroot s = Some grp \<Longrightarrow> isysroot_token s grp"
proof (induction s)
  case Nil
  then show ?case by simp
next
  case (Cons a s)
  show ?case
  proof (cases "match_isysroot_at (a # s)")
    case None
    with Cons.prems have "re_search_isysroot s = Some grp" by simp
    from Cons.IH[OF this] obtain pre ws rest where
      "s = pre @ ''-isysroot'' @ ws @ grp @ rest" "\<forall>c \<in> set ws. py_isspace c" "grp \<noteq> []"
      "\<forall>c \<in> set grp. \<not> py_isspace c" "case rest of [] \<Rightarrow> True | c # _ \<Rightarrow> py_isspace c"
      unfolding isysroot_token_def by blast
    then show ?thesis
      unfolding isysroot_token_def
      by (intro exI[of _ "a # pre"] exI[of _ ws] exI[of _ rest]) simp
  next
    case (Some g)
    with Cons.prems have "g = grp" by simp
    with Some match_isysroot_at_Some[of "a # s" grp] show ?thesis
      unfolding isysroot_token_def by (metis append_Nil)
  qed
qed

lemma re_search_isysroot_complete:
  assumes "\<forall>c \<in> set ws. py_isspace c" "\<not> py_isspace c"
  shows "re_search_isysroot (pre @ ''-isysroot'' @ ws @ c # rest) \<noteq> None"
proof (induction pre)
  case Nil
  from match_isysroot_at_token[OF assms, of rest] obtain g where
    "match_isysroot_at (''-isysroot'' @ ws @ c # rest) = Some g" by blast
  then show ?case by simp
next
  case (Cons a pre)
  then show ?case by (cases "match_isysroot_at (a # pre @ ''-isysroot'' @ ws @ c # rest)") auto
qed

lemma re_search_isysroot_None: "re_search_isysroot s = None \<longleftrightarrow> (\<forall>path. \<not> isysroot_token s path)"
proof
  assume n: "re_search_isysroot s = None"
  show "\<forall>path. \<not> isysroot_token s path"
  proof (intro allI notI)
    fix path assume "isysroot_token s path"
    then obtain pre ws rest where s: "s = pre @ ''-isysroot'' @ ws @ path @ rest"
      and ws: "\<forall>c \<in> set ws. py_isspace c" and ne: "path \<noteq> []"
      and p: "\<forall>c \<in> set path. \<not> py_isspace c"
      unfolding isysroot_token_def by blast
    from ne obtain c cs where path: "path = c # cs" by (cases path) auto
    with p have "\<not> py_isspace c" by simp
    from re_search_isysroot_complete[OF ws this, of pre "cs @ rest"] n s path
    show False by simp
  qed
next
  assume "\<forall>path. \<not> isysroot_token s path"
  then show "re_search_isysroot s = None"
    using re_search_isysroot_Some by (cases "re_search_isysroot s") auto
qed

lemma match_isysroot_at_complete:
  assumes ws: "\<forall>c \<in> set ws. py_isspace c" and ne: "path \<noteq> []"
    and p: "\<forall>c \<in> set path. \<not> py_isspace c"
    and r: "case rest of [] \<Rightarrow> True | c # _ \<Rightarrow> py_isspace c"
  shows "match_isysroot_at (''-isysroot'' @ ws @ path @ rest) = Some path"
proof -
  from ne obtain c cs where path: "path = c # cs" by (cases path) auto
  with p have c: "\<not> py_isspace c" by simp
  have d: "dropWhile py_isspace (ws @ path @ rest) = path @ rest"
    using ws c by (simp add: path dropWhile_append3)
  have "takeWhile (\<lambda>c. \<not> py_isspace c) rest = []"
    using r by (cases rest) auto
  with p have t: "takeWhile (\<lambda>c. \<not> py_isspace c) (path @ rest) = path"
    by (simp add: takeWhile_append2)
  have tk: "take (length L) (L @ x) = L" and dr: "drop (length L) (L @ x) = x"
    for L x :: string by simp_all
  show ?thesis
    unfolding match_isysroot_at_def tk dr d t using ne by simp
qed

lemma isysroot_token_at_iff_match:
  "isysroot_token_at s n path \<longleftrightarrow> match_isysroot_at (drop n s) = Some path"
proof
  assume "isysroot_token_at s n path"
  then obtain ws rest where d: "drop n s = ''-isysroot'' @ ws @ path @ rest"
    and c: "\<forall>c \<in> set ws. py_isspace c" "path \<noteq> []" "\<forall>c \<in> set path. \<not> py_isspace c"
      "case rest of [] \<Rightarrow> True | c # _ \<Rightarrow> py_isspace c"
    unfolding isysroot_token_at_def by blast
  show "match_isysroot_at (drop n s) = Some path"
    unfolding d using c by (rule match_isysroot_at_complete)
next
  assume "match_isysroot_at (drop n s) = Some path"
  from match_isysroot_at_Some[OF this] show "isysroot_token_at s n path"
    unfolding isysroot_token_at_def by blast
qed

lemma isysroot_token_iff_at: "isysroot_token s path \<longleftrightarrow> (\<exists>n. isysroot_token_at s n path)"
proof
  assume "isysroot_token s path"
  then obtain pre ws rest where s: "s = pre @ ''-isysroot'' @ ws @ path @ rest"
    and c: "\<forall>c \<in> set ws. py_isspace c" "path \<noteq> []" "\<forall>c \<in> set path. \<not> py_isspace c"
      "case rest of [] \<Rightarrow> True | c # _ \<Rightarrow> py_isspace c"
    unfolding isysroot_token_def by blast
  from s have "drop (length pre) s = ''-isysroot'' @ ws @ path @ rest" by simp
  with c show "\<exists>n. isysroot_token_at s n path"
    unfolding isysroot_token_at_def by blast
next
  assume "\<exists>n. isysroot_token_at s n path"
  then obtain n ws rest where d: "drop n s = ''-isysroot'' @ ws @ path @ rest"
    and c: "\<forall>c \<in> set ws. py_isspace c" "path \<noteq> []" "\<forall>c \<in> set path. \<not> py_isspace c"
      "case rest of [] \<Rightarrow> True | c # _ \<Rightarrow> py_isspace c"
    unfolding isysroot_token_at_def by blast
  have "s = take n s @ drop n s" by simp
  with d have "s = take n s @ ''-isysroot'' @ ws @ path @ rest" by simp
  with c show "isysroot_token s path"
    unfolding isysroot_token_def by blast
qed

lemma re_search_isysroot_leftmost_match:
  "re_search_isysroot s = Some grp \<longleftrightarrow>
     (\<exists>n. match_isysroot_at (drop n s) = Some grp \<and>
          (\<forall>m. m < n \<longrightarrow> match_isysroot_at (drop m s) = None))"
proof (induction s)
  case Nil
  then show ?case by (simp add: match_isysroot_at_def)
next
  case (Cons a s)
  show ?case
  proof (cases "match_isysroot_at (a # s)")
    case (Some g)
    show ?thesis
    proof
      assume "re_search_isysroot (a # s) = Some grp"
      with Some have "match_isysroot_at (drop 0 (a # s)) = Some grp" by simp
      then show "\<exists>n. match_isysroot_at (drop n (a # s)) = Some grp \<and>
          (\<forall>m. m < n \<longrightarrow> match_isysroot_at (drop m (a # s)) = None)"
        by (intro exI[of _ 0]) simp
    next
      assume "\<exists>n. match_isysroot_at (drop n (a # s)) = Some grp \<and>
          (\<forall>m. m < n \<longrightarrow> match_isysroot_at (drop m (a # s)) = None)"
      then obtain n where n: "match_isysroot_at (drop n (a # s)) = Some grp"
        "\<forall>m. m < n \<longrightarrow> match_isysroot_at (drop m (a # s)) = None" by blast
      have "n = 0"
      proof (rule ccontr)
        assume "n \<noteq> 0"
        then have "0 < n" by simp
        with n(2) have "match_isysroot_at (drop 0 (a # s)) = None" by blast
        with Some show False by simp
      qed
      with n(1) Some show "re_search_isysroot (a # s) = Some grp" by simp
    qed
  next
    case None
    then have r: "re_search_isysroot (a # s) = re_search_isysroot s" by simp
    show ?thesis
    proof
      assume "re_search_isysroot (a # s) = Some grp"
      with r Cons.IH obtain n where n: "match_isysroot_at (drop n s) = Some grp"
        "\<forall>m. m < n \<longrightarrow> match_isysroot_at (drop m s) = None" by auto
      have "\<forall>m. m < Suc n \<longrightarrow> match_isysroot_at (drop m (a # s)) = None"
      proof (intro allI impI)
        fix m assume "m < Suc n"
        then show "match_isysroot_at (drop m (a # s)) = None"
          using None n(2) by (cases m) auto
      qed
      with n(1) show "\<exists>n. match_isysroot_at (drop n (a # s)) = Some grp \<and>
          (\<forall>m. m < n \<longrightarrow> match_isysroot_at (drop m (a # s)) = None)"
        by (intro exI[of _ "Suc n"]) simp
    next
      assume "\<exists>n. match_isysroot_at (drop n (a # s)) = Some grp \<and>
          (\<forall>m. m < n \<longrightarrow> match_isysroot_at (drop m (a # s)) = None)"
      then obtain n where n: "match_isysroot_at (drop n (a # s)) = Some grp"
        "\<forall>m. m < n \<longrightarrow> match_isysroot_at (drop m (a # s)) = None" by blast
      from n(1) None obtain k where k: "n = Suc k" by (cases n) auto
      have "\<forall>m. m < k \<longrightarrow> match_isysroot_at (drop m s) = None"
      proof (intro allI impI)
        fix m assume "m < k"
        then have "Suc m < n" by (simp add: k)
        with n(2) have "match_isysroot_at (drop (Suc m) (a # s)) = None" by blast
        then show "match_isysroot_at (drop m s) = None" by simp
      qed
      with n(1) k have "re_search_isysroot s = Some grp"
        using Cons.IH by auto
      with r show "re_search_isysroot (a # s) = Some grp" by simp
    qed
  qed
qed

lemma re_search_isysroot_iff_leftmost:
  "re_search_isysroot s = Some path \<longleftrightarrow> leftmost_isysroot_token s path"
  unfolding leftmost_isysroot_token_def re_search_isysroot_leftmost_match
  by (simp add: isysroot_token_at_iff_match)

lemma leftmost_isysroot_token_exists:
  "isysroot_token s path \<Longrightarrow> \<exists>p. leftmost_isysroot_token s p"
proof -
  assume "isysroot_token s path"
  then have "re_search_isysroot s \<noteq> None" by (auto simp: re_search_isysroot_None)
  then obtain p where "re_search_isysroot s = Some p" by blast
  then show ?thesis by (auto simp: re_search_isysroot_iff_leftmost)
qed

lemma macosx_sdk_root_search:
  assumes "\<not> truthy (MACOS_SDK_ROOT g)" "vars ''CFLAGS'' = Some cflags"
  shows "macosx_sdk_root w vars g =
     (case re_search_isysroot cflags of
        Some path \<Rightarrow> (Inr path, g\<lparr>MACOS_SDK_ROOT := Some path,
                                    MACOS_SDK_SPECIFIED := Some (path \<noteq> ''/'')\<rparr>)
      | None \<Rightarrow> (Inr (default_sysroot w (vars ''CC'')),
                  g\<lparr>MACOS_SDK_ROOT := Some (default_sysroot w (vars ''CC'')),
                    MACOS_SDK_SPECIFIED := Some False,
                    compiler_runs := compiler_runs g + 1\<rparr>))"
  using assms by (simp add: macosx_sdk_root_def Let_def split: option.splits)

text \<open>
  Claim C3, as amended. With no root cached and \<open>CFLAGS\<close> set: when \<open>CFLAGS\<close> holds a
  \<open>-isysroot\<close> option, there is a leftmost one, and \<open>macosx_sdk_root\<close> returns and
  caches the path of the leftmost option without running the compiler, and marks the
  SDK as specified exactly when that path is not \<open>/\<close>; when \<open>CFLAGS\<close> holds none, the
  root is what the compiler reports, the SDK is marked as not specified, and the
  compiler has run once.
\<close>

theorem macosx_sdk_root_uncached:
  assumes "\<not> truthy (MACOS_SDK_ROOT g)" and "vars ''CFLAGS'' = Some cflags"
  shows "(\<forall>path. leftmost_isysroot_token cflags path \<longrightarrow>
            macosx_sdk_root w vars g =
              (Inr path, g\<lparr>MACOS_SDK_ROOT := Some path,
                           MACOS_SDK_SPECIFIED := Some (path \<noteq> ''/'')\<rparr>)) \<and>
         ((\<exists>path. isysroot_token cflags path) \<longrightarrow>
            (\<exists>path. leftmost_isysroot_token cflags path)) \<and>
         ((\<forall>path. \<not> isysroot_token cflags path) \<longrightarrow>
            macosx_sdk_root w vars g =
              (Inr (default_sysroot w (vars ''CC'')),
               g\<lparr>MACOS_SDK_ROOT := Some (default_sysroot w (vars ''CC'')),
                 MACOS_SDK_SPECIFIED := Some False,
                 compiler_runs := compiler_runs g + 1\<rparr>))"
proof (intro conjI allI impI)
  fix path assume "leftmost_isysroot_token cflags path"
  then have "re_search_isysroot cflags = Some path"
    by (simp add: re_search_isysroot_iff_leftmost)
  with macosx_sdk_root_search[of g vars cflags w] assms
  show "macosx_sdk_root w vars g =
      (Inr path, g\<lparr>MACOS_SDK_ROOT := Some path, MACOS_SDK_SPECIFIED := Some (path \<noteq> ''/'')\<rparr>)"
    by simp
next
  assume "\<exists>path. isysroot_token cflags path"
  then show "\<exists>path. leftmost_isysroot_token cflags path"
    by (auto dest: leftmost_isysroot_token_exists)
next
  assume "\<forall>path. \<not> isysroot_token cflags path"
  then have "re_search_isysroot cflags = None" by (simp add: re_search_isysroot_None)
  with macosx_sdk_root_search[of g vars cflags w] assms
  show "macosx_sdk_root w vars g =
      (Inr (default_sysroot w (vars ''CC'')),
       g\<lparr>MACOS_SDK_ROOT := Some (default_sysroot w (vars ''CC'')),
         MACOS_SDK_SPECIFIED := Some False,
         compiler_runs := compiler_runs g + 1\<rparr>)"
    by simp
qed

lemma search_example: "re_search_isysroot ''-O2 -isysroot /SDKs/X.sdk -g'' = Some ''/SDKs/X.sdk''"
  by (simp add: match_isysroot_at_def py_isspace_def)

lemma search_example_none: "re_search_isysroot ''-O2 -g'' = None"
  by (simp add: match_isysroot_at_def py_isspace_def)

lemma search_example_root: "re_search_isysroot ''-isysroot /'' = Some ''/''"
  by (simp add: match_isysroot_at_def py_isspace_def)

lemma search_example_two: "re_search_isysroot ''-isysroot /A -isysroot /B'' = Some ''/A''"
  by (simp add: match_isysroot_at_def py_isspace_def)

theorem macosx_sdk_root_uncached_witness:
  "leftmost_isysroot_token ''-isysroot /A -isysroot /B'' ''/A''
   \<and> macosx_sdk_root example_host [''CFLAGS'' \<mapsto> ''-isysroot /A -isysroot /B'', ''CC'' \<mapsto> ''gcc'']
       \<lparr>MACOS_SDK_ROOT = None, MACOS_SDK_SPECIFIED = None, compiler_runs = 0\<rparr>
     = (Inr ''/A'',
        \<lparr>MACOS_SDK_ROOT = Some ''/A'', MACOS_SDK_SPECIFIED = Some True, compiler_runs = 0\<rparr>)
   \<and> macosx_sdk_root example_host [''CFLAGS'' \<mapsto> ''-O2 -g'', ''CC'' \<mapsto> ''gcc'']
       \<lparr>MACOS_SDK_ROOT = None, MACOS_SDK_SPECIFIED = None, compiler_runs = 0\<rparr>
     = (Inr ''/'',
        \<lparr>MACOS_SDK_ROOT = Some ''/'', MACOS_SDK_SPECIFIED = Some False, compiler_runs = 1\<rparr>)"
proof -
  let ?g = "\<lparr>MACOS_SDK_ROOT = None, MACOS_SDK_SPECIFIED = None, compiler_runs = 0\<rparr>"
  have c: "\<not> truthy (MACOS_SDK_ROOT ?g)" by (simp add: truthy_def)
  have l: "leftmost_isysroot_token ''-isysroot /A -isysroot /B'' ''/A''"
    by (rule re_search_isysroot_iff_leftmost[THEN iffD1, OF search_example_two])
  have n: "\<forall>path. \<not> isysroot_token ''-O2 -g'' path"
    by (rule re_search_isysroot_None[THEN iffD1, OF search_example_none])
  have v1: "[''CFLAGS'' \<mapsto> ''-isysroot /A -isysroot /B'', ''CC'' \<mapsto> ''gcc''] ''CFLAGS''
      = Some ''-isysroot /A -isysroot /B''" by simp
  have v2: "[''CFLAGS'' \<mapsto> ''-O2 -g'', ''CC'' \<mapsto> ''gcc''] ''CFLAGS'' = Some ''-O2 -g''" by simp
  have a: "macosx_sdk_root example_host [''CFLAGS'' \<mapsto> ''-isysroot /A -isysroot /B'', ''CC'' \<mapsto> ''gcc''] ?g
     = (Inr ''/A'',
        \<lparr>MACOS_SDK_ROOT = Some ''/A'', MACOS_SDK_SPECIFIED = Some True, compiler_runs = 0\<rparr>)"
    using macosx_sdk_root_uncached [of ?g "[''CFLAGS'' \<mapsto> ''-isysroot /A -isysroot /B'', ''CC'' \<mapsto> ''gcc'']"
        "''-isysroot /A -isysroot /B''" example_host] c v1 l
    by simp
  have b: "macosx_sdk_root example_host [''CFLAGS'' \<mapsto> ''-O2 -g'', ''CC'' \<mapsto> ''gcc''] ?g
     = (Inr ''/'',
        \<lparr>MACOS_SDK_ROOT = Some ''/'', MACOS_SDK_SPECIFIED = Some False, compiler_runs = 1\<rparr>)"
    using macosx_sdk_root_uncached [of ?g "[''CFLAGS'' \<mapsto> ''-O2 -g'', ''CC'' \<mapsto> ''gcc'']" "''-O2 -g''" example_host] c v2 n
    by (simp add: example_host_def)
  from l a b show ?thesis by simp
qed

text \<open>
  With \<open>-isysroot /\<close> the option is found and used, and the SDK is marked as not
  specified.
\<close>

theorem macosx_sdk_root_slash_not_specified:
  "re_search_isysroot ''-isysroot /'' = Some ''/'' \<and>
   macosx_sdk_root example_host [''CFLAGS'' \<mapsto> ''-isysroot /'']
       \<lparr>MACOS_SDK_ROOT = None, MACOS_SDK_SPECIFIED = None, compiler_runs = 0\<rparr>
     = (Inr ''/'',
        \<lparr>MACOS_SDK_ROOT = Some ''/'', MACOS_SDK_SPECIFIED = Some False, compiler_runs = 0\<rparr>)"
  by (simp add: macosx_sdk_root_def truthy_def search_example_root del: re_search_isysroot.simps)

lemma macosx_sdk_root_sets_cache:
  "macosx_sdk_root w vars g = (Inr root, g1) \<Longrightarrow> MACOS_SDK_ROOT g1 = Some root"
  by (auto simp: macosx_sdk_root_def Let_def split: option.splits if_splits)

text \<open>
  Claim C4. After a call that has computed a root (a non-empty path, which is what the
  test \<open>if MACOS_SDK_ROOT\<close> takes for a cached result), a second call returns the same
  value and leaves every global as it was, the count of compiler runs included,
  whatever the configuration variables hold by then.
\<close>

theorem macosx_sdk_root_cached:
  assumes "macosx_sdk_root w vars g = (Inr root, g1)" and "root \<noteq> []"
  shows "macosx_sdk_root w' vars' g1 = (Inr root, g1)"
proof -
  from assms(1) have "MACOS_SDK_ROOT g1 = Some root" by (rule macosx_sdk_root_sets_cache)
  with assms(2) show ?thesis by (simp add: macosx_sdk_root_def truthy_def)
qed

theorem macosx_sdk_root_cached_witness:
  "macosx_sdk_root example_host [''CFLAGS'' \<mapsto> ''-O2 -g'']
       \<lparr>MACOS_SDK_ROOT = None, MACOS_SDK_SPECIFIED = None, compiler_runs = 0\<rparr>
     = (Inr ''/'',
        \<lparr>MACOS_SDK_ROOT = Some ''/'', MACOS_SDK_SPECIFIED = Some False, compiler_runs = 1\<rparr>)
   \<and> macosx_sdk_root example_host [''CFLAGS'' \<mapsto> ''-O2 -g'']
       \<lparr>MACOS_SDK_ROOT = Some ''/'', MACOS_SDK_SPECIFIED = Some False, compiler_runs = 1\<rparr>
     = (Inr ''/'',
        \<lparr>MACOS_SDK_ROOT = Some ''/'', MACOS_SDK_SPECIFIED = Some False, compiler_runs = 1\<rparr>)"
proof -
  have h: "macosx_sdk_root example_host [''CFLAGS'' \<mapsto> ''-O2 -g'']
       \<lparr>MACOS_SDK_ROOT = None, MACOS_SDK_SPECIFIED = None, compiler_runs = 0\<rparr>
     = (Inr ''/'',
        \<lparr>MACOS_SDK_ROOT = Some ''/'', MACOS_SDK_SPECIFIED = Some False, compiler_runs = 1\<rparr>)"
    by (simp add: macosx_sdk_root_def truthy_def search_example_none example_host_def Let_def
          del: re_search_isysroot.simps)
  have ne: "''/'' \<noteq> []" by simp
  show ?thesis
    using h macosx_sdk_root_cached [OF h ne, of example_host "[''CFLAGS'' \<mapsto> ''-O2 -g'']"]
    by simp
qed

section \<open>Properties of \<open>find_file\<close>\<close>

lemma find_file_std_iff:
  "find_file_std w sysroot filename dirs \<longleftrightarrow>
     (\<exists>dir \<in> set dirs. path_exists w (candidate w sysroot dir filename))"
  by (induction dirs) auto

lemma find_file_paths_eq:
  "find_file_paths w sysroot filename dirs =
     (case find (\<lambda>dir. path_exists w (candidate w sysroot dir filename)) dirs of
        Some dir \<Rightarrow> Some [dir] | None \<Rightarrow> None)"
  by (induction dirs) auto

text \<open>
  Claim C2. Once the SDK root is resolved (or the host is not macOS), \<open>find_file\<close>
  returns the empty list when the file exists under some standard directory, the SDK
  root standing in for an SDK path on macOS; otherwise the one-element list of the first
  additional directory under which it exists; otherwise \<open>None\<close>.
\<close>

theorem find_file_result:
  assumes "sysroot_if_macos w vars g = (Inr sysroot, g')"
  shows "find_file w vars g filename std_dirs paths =
     (Inr (if \<exists>dir \<in> set std_dirs. path_exists w (candidate w sysroot dir filename)
           then Some []
           else (case find (\<lambda>dir. path_exists w (candidate w sysroot dir filename)) paths of
                   Some dir \<Rightarrow> Some [dir]
                 | None \<Rightarrow> None)), g')"
  using assms by (simp add: find_file_def find_file_std_iff find_file_paths_eq)

lemma example_sysroot:
  "sysroot_if_macos example_host [''CFLAGS'' \<mapsto> ''-O2 -isysroot /SDKs/X.sdk -g'']
       \<lparr>MACOS_SDK_ROOT = None, MACOS_SDK_SPECIFIED = None, compiler_runs = 0\<rparr>
     = (Inr ''/SDKs/X.sdk'',
        \<lparr>MACOS_SDK_ROOT = Some ''/SDKs/X.sdk'', MACOS_SDK_SPECIFIED = Some True, compiler_runs = 0\<rparr>)"
  by (simp add: sysroot_if_macos_def macosx_sdk_root_def truthy_def search_example example_host_def
        del: re_search_isysroot.simps)

theorem find_file_result_witness:
  "find_file example_host [''CFLAGS'' \<mapsto> ''-O2 -isysroot /SDKs/X.sdk -g'']
       \<lparr>MACOS_SDK_ROOT = None, MACOS_SDK_SPECIFIED = None, compiler_runs = 0\<rparr>
       ''foo.h'' [''/usr/include''] [''/opt/include'', ''/opt/lib/include'']
     = (Inr (Some [''/opt/lib/include'']),
        \<lparr>MACOS_SDK_ROOT = Some ''/SDKs/X.sdk'', MACOS_SDK_SPECIFIED = Some True, compiler_runs = 0\<rparr>)
   \<and> find_file example_host [''CFLAGS'' \<mapsto> ''-O2 -isysroot /SDKs/X.sdk -g'']
       \<lparr>MACOS_SDK_ROOT = None, MACOS_SDK_SPECIFIED = None, compiler_runs = 0\<rparr>
       ''zlib.h'' [''/usr/include''] [''/opt/include'', ''/opt/lib/include'']
     = (Inr (Some []),
        \<lparr>MACOS_SDK_ROOT = Some ''/SDKs/X.sdk'', MACOS_SDK_SPECIFIED = Some True, compiler_runs = 0\<rparr>)
   \<and> find_file example_host [''CFLAGS'' \<mapsto> ''-O2 -isysroot /SDKs/X.sdk -g'']
       \<lparr>MACOS_SDK_ROOT = None, MACOS_SDK_SPECIFIED = None, compiler_runs = 0\<rparr>
       ''bar.h'' [''/usr/include''] [''/opt/include'', ''/opt/lib/include'']
     = (Inr None,
        \<lparr>MACOS_SDK_ROOT = Some ''/SDKs/X.sdk'', MACOS_SDK_SPECIFIED = Some True, compiler_runs = 0\<rparr>)"
  using find_file_result [OF example_sysroot, of "''foo.h''" "[''/usr/include'']" "[''/opt/include'', ''/opt/lib/include'']"]
    find_file_result [OF example_sysroot, of "''zlib.h''" "[''/usr/include'']" "[''/opt/include'', ''/opt/lib/include'']"]
    find_file_result [OF example_sysroot, of "''bar.h''" "[''/usr/include'']" "[''/opt/include'', ''/opt/lib/include'']"]
  by (simp add: candidate_def posix_join_def isabs_def sep_def example_host_def)

section \<open>Properties of the tail of \<open>find_library_file\<close>\<close>

lemma library_std_loop_iff:
  "library_std_loop w sysroot dirname ps \<longleftrightarrow> (\<exists>p \<in> set ps. dir_matches w sysroot dirname p)"
  by (induction ps) (auto simp: dir_matches_def Let_def)

lemma library_paths_loop_eq:
  "library_paths_loop w sysroot dirname ps =
     (case find (dir_matches w sysroot dirname) ps of
        Some p \<Rightarrow> Some [rstrip_sep p] | None \<Rightarrow> None)"
  by (induction ps) (auto simp: dir_matches_def Let_def)

lemma find_library_file_eq:
  assumes "sysroot_if_macos w vars g = (Inr sysroot, g')"
  shows "find_library_file w vars g result std_dirs paths =
     (if \<exists>p \<in> set std_dirs. dir_matches w sysroot (posix_dirname result) p then (Inr [], g')
      else (case find (dir_matches w sysroot (posix_dirname result)) paths of
              Some p \<Rightarrow> (Inr [rstrip_sep p], g')
            | None \<Rightarrow> (Inl AssertionError, g')))"
  using assms
  by (simp add: find_library_file_def library_std_loop_iff library_paths_loop_eq Let_def
        split: option.splits)

text \<open>
  Claim C6. Once the SDK root is resolved (or the host is not macOS): when the
  directory of the resolved path matches an entry of the standard or of the additional
  directories, a list is returned and the assertion is not reached; when it matches no
  entry of either list, the assertion fails and no value is returned.
\<close>

theorem find_library_file_assertion:
  assumes "sysroot_if_macos w vars g = (Inr sysroot, g')"
  shows "((\<exists>p \<in> set std_dirs \<union> set paths. dir_matches w sysroot (posix_dirname result) p) \<longrightarrow>
            (\<exists>r. find_library_file w vars g result std_dirs paths = (Inr r, g'))) \<and>
         ((\<forall>p \<in> set std_dirs \<union> set paths. \<not> dir_matches w sysroot (posix_dirname result) p) \<longrightarrow>
            find_library_file w vars g result std_dirs paths = (Inl AssertionError, g'))"
proof (intro conjI impI)
  assume "\<exists>p \<in> set std_dirs \<union> set paths. dir_matches w sysroot (posix_dirname result) p"
  then consider (std) "\<exists>p \<in> set std_dirs. dir_matches w sysroot (posix_dirname result) p"
    | (add) "\<not> (\<exists>p \<in> set std_dirs. dir_matches w sysroot (posix_dirname result) p)"
        "\<exists>p \<in> set paths. dir_matches w sysroot (posix_dirname result) p"
    by blast
  then show "\<exists>r. find_library_file w vars g result std_dirs paths = (Inr r, g')"
  proof cases
    case std
    then show ?thesis by (simp add: find_library_file_eq[OF assms])
  next
    case add
    from add(2) obtain p where "find (dir_matches w sysroot (posix_dirname result)) paths = Some p"
      by (cases "find (dir_matches w sysroot (posix_dirname result)) paths")
         (auto simp: find_None_iff)
    with add(1) show ?thesis by (simp add: find_library_file_eq[OF assms])
  qed
next
  assume n: "\<forall>p \<in> set std_dirs \<union> set paths. \<not> dir_matches w sysroot (posix_dirname result) p"
  then have "find (dir_matches w sysroot (posix_dirname result)) paths = None"
    by (simp add: find_None_iff)
  with n show "find_library_file w vars g result std_dirs paths = (Inl AssertionError, g')"
    by (simp add: find_library_file_eq[OF assms])
qed

lemma dirname_example: "posix_dirname ''/opt/lib/libfoo.a'' = ''/opt/lib''"
  by (simp add: posix_dirname_def rstrip_sep_def sep_def)

theorem find_library_file_assertion_witness:
  "(\<exists>r. find_library_file example_host [''CFLAGS'' \<mapsto> ''-O2 -isysroot /SDKs/X.sdk -g'']
       \<lparr>MACOS_SDK_ROOT = None, MACOS_SDK_SPECIFIED = None, compiler_runs = 0\<rparr>
       ''/opt/lib/libfoo.a'' [''/usr/lib/''] [''/opt/lib/'']
     = (Inr r,
        \<lparr>MACOS_SDK_ROOT = Some ''/SDKs/X.sdk'', MACOS_SDK_SPECIFIED = Some True, compiler_runs = 0\<rparr>))
   \<and> find_library_file example_host [''CFLAGS'' \<mapsto> ''-O2 -isysroot /SDKs/X.sdk -g'']
       \<lparr>MACOS_SDK_ROOT = None, MACOS_SDK_SPECIFIED = None, compiler_runs = 0\<rparr>
       ''/opt/lib/libfoo.a'' [''/usr/lib/''] [''/usr/local/lib'']
     = (Inl AssertionError,
        \<lparr>MACOS_SDK_ROOT = Some ''/SDKs/X.sdk'', MACOS_SDK_SPECIFIED = Some True, compiler_runs = 0\<rparr>)"
proof -
  have m: "\<exists>p \<in> set [''/usr/lib/''] \<union> set [''/opt/lib/''].
             dir_matches example_host ''/SDKs/X.sdk'' ''/opt/lib'' p"
    by (simp add: dir_matches_def rstrip_sep_def sep_def)
  have n: "\<forall>p \<in> set [''/usr/lib/''] \<union> set [''/usr/local/lib''].
             \<not> dir_matches example_host ''/SDKs/X.sdk'' ''/opt/lib'' p"
    by (simp add: dir_matches_def rstrip_sep_def sep_def posix_join_def isabs_def example_host_def)
  show ?thesis
    using find_library_file_assertion [OF example_sysroot, of "[''/usr/lib/'']" "[''/usr/local/lib'']"
        "''/opt/lib/libfoo.a''"] n
      find_library_file_assertion [OF example_sysroot, of "[''/usr/lib/'']" "[''/opt/lib/'']"
        "''/opt/lib/libfoo.a''"] m
    unfolding dirname_example by blast
qed

section \<open>Properties of \<open>set_srcdir\<close>\<close>

lemma isabs_Cons: "isabs (c # cs) \<longleftrightarrow> c = sep"
  by (simp add: isabs_def)

lemma isabs_Nil: "\<not> isabs []"
  by (simp add: isabs_def)

lemma isabs_normpath: "isabs path \<Longrightarrow> isabs (normpath path)"
proof -
  assume a: "isabs path"
  then have ne: "path \<noteq> []" by (auto simp: isabs_Nil)
  define k :: nat where
    "k = (if take 2 path = [sep, sep] \<and> take 3 path \<noteq> [sep, sep, sep] then 2 else 1)"
  then obtain j where k: "k = Suc j" by (cases k) (auto split: if_splits)
  have "normpath path = replicate k sep @ join_sep (fold (normpath_step k) (split_sep path) [])"
    using a ne by (simp add: normpath_def Let_def k_def)
  then show ?thesis by (simp add: k isabs_Cons)
qed

lemma isabs_posix_join: "isabs cwd \<Longrightarrow> isabs (posix_join cwd path)"
  by (cases cwd) (auto simp: posix_join_def isabs_Cons isabs_Nil)

lemma isabs_abspath: "isabs cwd \<Longrightarrow> isabs (abspath cwd path)"
  by (simp add: abspath_def isabs_normpath isabs_posix_join)

text \<open>
  Claim C8. When \<open>srcdir\<close> is not set or is empty, \<open>set_srcdir\<close> raises ValueError and
  \<open>self.srcdir\<close> holds no directory (\<open>None\<close> or the empty string, as read); when it
  is set, nothing is raised and \<open>self.srcdir\<close> is the absolute path that \<open>abspath\<close>
  gives, the working directory being absolute as \<open>os.getcwd()\<close> reports it.
\<close>

theorem set_srcdir_result:
  "(\<not> truthy (vars ''srcdir'') \<longrightarrow>
      set_srcdir w vars self = (Inl ValueError, self\<lparr>srcdir := vars ''srcdir''\<rparr>) \<and>
      \<not> truthy (srcdir (snd (set_srcdir w vars self)))) \<and>
   (\<forall>dir. vars ''srcdir'' = Some dir \<and> dir \<noteq> [] \<and> isabs (getcwd w) \<longrightarrow>
      set_srcdir w vars self = (Inr (), self\<lparr>srcdir := Some (abspath (getcwd w) dir)\<rparr>) \<and>
      isabs (abspath (getcwd w) dir))"
  by (auto simp: set_srcdir_def truthy_def Let_def isabs_abspath split: option.splits)

lemma abspath_example: "abspath ''/home/build/cpython'' ''../src'' = ''/home/build/src''"
  by (simp add: abspath_def posix_join_def normpath_def normpath_step_def isabs_def sep_def Let_def)

theorem set_srcdir_result_witness:
  "set_srcdir example_host Map.empty \<lparr>srcdir = None, extensions = [], failed = [], missing = []\<rparr>
     = (Inl ValueError, \<lparr>srcdir = None, extensions = [], failed = [], missing = []\<rparr>)
   \<and> set_srcdir example_host [''srcdir'' \<mapsto> ''''] \<lparr>srcdir = None, extensions = [], failed = [], missing = []\<rparr>
     = (Inl ValueError, \<lparr>srcdir = Some [], extensions = [], failed = [], missing = []\<rparr>)
   \<and> set_srcdir example_host [''srcdir'' \<mapsto> ''../src''] \<lparr>srcdir = None, extensions = [], failed = [], missing = []\<rparr>
     = (Inr (), \<lparr>srcdir = Some ''/home/build/src'', extensions = [], failed = [], missing = []\<rparr>)
   \<and> isabs ''/home/build/src''"
proof -
  let ?self = "\<lparr>srcdir = None, extensions = [], failed = [], missing = []\<rparr>"
  have cwd: "getcwd example_host = ''/home/build/cpython''" by (simp add: example_host_def)
  have abs: "isabs (getcwd example_host)" by (simp add: cwd isabs_def sep_def)
  show ?thesis
    using set_srcdir_result [of Map.empty example_host ?self]
      set_srcdir_result [of "[''srcdir'' \<mapsto> '''']" example_host ?self]
      set_srcdir_result [of "[''srcdir'' \<mapsto> ''../src'']" example_host ?self] abs
    by (simp add: truthy_def cwd abspath_example)
qed

end
